theory Spec2Isabelle
  imports Main
begin

section \<open>JavaScript values\<close>

text \<open>
  The values the library handles. An object is its own properties (in creation order; each
  with its value and its enumerable flag), the own properties of the user objects on
  its prototype chain (nearest first), and the built-in prototype in which the chain ends.
  Every property of a user object is a writable data property: accessors defined by the
  user, proxies, symbol keys, frozen objects and changes to the built-in prototypes are
  outside the model. Numbers are integers and strings are lists of 8-bit characters. A
  function value is a reference: the library's own \<open>basicInternalError\<close>, or a function
  of the user (not a class constructor), whose behaviour the caller of the model
  supplies; properties added to a function are not modelled.
\<close>

type_synonym key = string

datatype base = NullBase | ObjectBase | FunctionBase | ErrorBase | TypeErrorBase | ErrodBase

datatype fn_ref = BasicInternalError | UserFn nat

datatype jsval =
    Undefined
  | Null
  | Bool bool
  | Num int
  | Str string
  | Fun fn_ref
  | Obj base "(key \<times> jsval \<times> bool) list" "(key \<times> jsval \<times> bool) list list"

type_synonym props = "(key \<times> jsval \<times> bool) list"

text \<open>\<open>typeof v\<close>.\<close>

fun typeof :: "jsval \<Rightarrow> string" where
  "typeof Undefined = ''undefined''"
| "typeof Null = ''object''"
| "typeof (Bool b) = ''boolean''"
| "typeof (Num n) = ''number''"
| "typeof (Str s) = ''string''"
| "typeof (Fun f) = ''function''"
| "typeof (Obj b own anc) = ''object''"

text \<open>The truth value of \<open>v\<close> in a condition.\<close>

fun truthy :: "jsval \<Rightarrow> bool" where
  "truthy Undefined = False"
| "truthy Null = False"
| "truthy (Bool b) = b"
| "truthy (Num n) = (n \<noteq> 0)"
| "truthy (Str s) = (s \<noteq> [])"
| "truthy (Fun f) = True"
| "truthy (Obj b own anc) = True"

text \<open>
  \<open>v instanceof Errod\<close>: whether \<open>Errod.prototype\<close> is on the prototype chain of \<open>v\<close>.
  No user object is \<open>Errod.prototype\<close>, so only the end of the chain decides.
\<close>

fun instanceof_Errod :: "jsval \<Rightarrow> bool" where
  "instanceof_Errod (Obj b own anc) = (b = ErrodBase)"
| "instanceof_Errod v = False"

text \<open>The value of an own property, whatever its enumerable flag.\<close>

definition own_value :: "props \<Rightarrow> key \<Rightarrow> jsval option" where
  "own_value ps k = map_option fst (map_of ps k)"

text \<open>
  What the built-in prototypes hold under the keys the library reads: \<open>Error.prototype\<close>
  and \<open>TypeError.prototype\<close> have \<open>message\<close> (the empty string) and \<open>name\<close>.
\<close>

fun base_value :: "base \<Rightarrow> key \<Rightarrow> jsval" where
  "base_value ErrorBase k =
     (if k = ''message'' then Str [] else if k = ''name'' then Str ''Error'' else Undefined)"
| "base_value ErrodBase k =
     (if k = ''message'' then Str [] else if k = ''name'' then Str ''Error'' else Undefined)"
| "base_value TypeErrorBase k =
     (if k = ''message'' then Str [] else if k = ''name'' then Str ''TypeError'' else Undefined)"
| "base_value b k = Undefined"

fun chain_value :: "props list \<Rightarrow> base \<Rightarrow> key \<Rightarrow> jsval" where
  "chain_value [] b k = base_value b k"
| "chain_value (ps # rest) b k =
     (case own_value ps k of Some v \<Rightarrow> v | None \<Rightarrow> chain_value rest b k)"

text \<open>
  An error object as the engine (V8, under Node.js) builds it: an own \<open>stack\<close> and an own
  \<open>message\<close>, in that order, neither enumerable. The text of the stack starts with a
  header line of the name and the message the error has when it is built; the frames
  that follow are those of the call site and are left out.
\<close>

definition stack_header :: "string \<Rightarrow> string \<Rightarrow> string" where
  "stack_header name message = (if message = [] then name else name @ '': '' @ message)"

definition error_object :: "base \<Rightarrow> string \<Rightarrow> string \<Rightarrow> jsval" where
  "error_object b name message =
     Obj b [(''stack'', Str (stack_header name message), False), (''message'', Str message, False)] []"

text \<open>
  The \<open>TypeError\<close> of a property read on \<open>null\<close> or \<open>undefined\<close>. The wording of its
  message is the engine's; nothing below depends on it.
\<close>

definition TypeError_read :: "string \<Rightarrow> key \<Rightarrow> jsval" where
  "TypeError_read what k =
     error_object TypeErrorBase ''TypeError''
       (''Cannot read properties of '' @ what @ '' (reading '' @ [CHR 0x27] @ k @ [CHR 0x27] @ '')'')"

text \<open>
  The expression \<open>v.k\<close> for the keys the library reads, \<open>message\<close> and \<open>cause\<close>, and for
  \<open>name\<close> on an object with no function on its chain (the methods of the built-in
  prototypes and the \<open>name\<close> and \<open>length\<close> of a function are not looked up): it throws
  on \<open>null\<close> and \<open>undefined\<close> (\<open>Inl\<close> the thrown value), and a primitive or a function
  has neither a message nor a cause.
\<close>

fun get_field :: "jsval \<Rightarrow> key \<Rightarrow> jsval + jsval" where
  "get_field Undefined k = Inl (TypeError_read ''undefined'' k)"
| "get_field Null k = Inl (TypeError_read ''null'' k)"
| "get_field (Obj b own anc) k = Inr (chain_value (own # anc) b k)"
| "get_field v k = Inr Undefined"

section \<open>Property assignment and \<open>Object.assign\<close>\<close>

text \<open>
  An assignment to an own property keeps its place and its flag; a new property goes to
  the end and is enumerable.
\<close>

fun put_own :: "key \<Rightarrow> jsval \<Rightarrow> props \<Rightarrow> props" where
  "put_own k v [] = [(k, v, True)]"
| "put_own k v ((k', v', en) # ps) =
     (if k' = k then (k, v, en) # ps else (k', v', en) # put_own k v ps)"

text \<open>
  The setter of \<open>__proto__\<close>: an object, a function or \<open>null\<close> becomes the prototype, any
  other value is ignored.
\<close>

fun set_prototype :: "props \<Rightarrow> base \<Rightarrow> props list \<Rightarrow> jsval \<Rightarrow> jsval" where
  "set_prototype own b anc Null = Obj NullBase own []"
| "set_prototype own b anc (Obj b' own' anc') = Obj b' own (own' # anc')"
| "set_prototype own b anc (Fun f) = Obj FunctionBase own []"
| "set_prototype own b anc v = Obj b own anc"

text \<open>
  The \<open>TypeError\<close> of an assignment that a property on the prototype chain forbids
  (wording of the engine).
\<close>

definition TypeError_assign :: "key \<Rightarrow> jsval" where
  "TypeError_assign k =
     error_object TypeErrorBase ''TypeError''
       (''Cannot assign to read only property '' @ [CHR 0x27] @ k @ [CHR 0x27])"

text \<open>
  The keys under which a function on the prototype chain forbids an assignment: its own
  \<open>length\<close> and \<open>name\<close> (or those of \<open>Function.prototype\<close>) are not writable, and
  \<open>caller\<close> and \<open>arguments\<close> are not writable or are accessors that throw.
\<close>

definition function_read_only :: "key list" where
  "function_read_only = [''length'', ''name'', ''caller'', ''arguments'']"

text \<open>Whether one of the objects has an own property under the key.\<close>

definition has_own :: "props list \<Rightarrow> key \<Rightarrow> bool" where
  "has_own chain k = list_ex (\<lambda>ps. own_value ps k \<noteq> None) chain"

text \<open>
  The assignment \<open>target[k] = v\<close> on an object, as \<open>Object.assign\<close> and strict code do it
  (\<open>Inl\<close> the error thrown). A property found on the object or on a user object of its
  chain is a writable data property: the value goes to the own property of that name, a
  new one if there is none. Otherwise the end of the chain decides: a function forbids
  the assignment under its read-only keys; every end but \<open>null\<close> inherits the accessor
  \<open>__proto__\<close> of \<open>Object.prototype\<close>, whose setter is called; and any other key gives a
  new own property. (The library assigns to \<open>this\<close> only; the last equation is never used.)
\<close>

fun set_prop :: "jsval \<Rightarrow> key \<Rightarrow> jsval \<Rightarrow> jsval + jsval" where
  "set_prop (Obj b own anc) k v =
     (if has_own (own # anc) k then Inr (Obj b (put_own k v own) anc)
      else if b = FunctionBase \<and> k \<in> set function_read_only then Inl (TypeError_assign k)
      else if b \<noteq> NullBase \<and> k = ''__proto__'' then Inr (set_prototype own b anc v)
      else Inr (Obj b (put_own k v own) anc))"
| "set_prop t k v = Inr t"

text \<open>Decimal digits of an index, as a property key.\<close>

fun index_key :: "nat \<Rightarrow> key" where
  "index_key n =
     (if n < 10 then [char_of (48 + n)] else index_key (n div 10) @ [char_of (48 + n mod 10)])"

declare index_key.simps [simp del]

text \<open>The own keys of an object, each once.\<close>

definition own_keys :: "props \<Rightarrow> key list" where
  "own_keys ps = remdups (map fst ps)"

text \<open>The value of an own property that is enumerable.\<close>

definition enumerable_value :: "props \<Rightarrow> key \<Rightarrow> jsval option" where
  "enumerable_value ps k = (case map_of ps k of Some (v, True) \<Rightarrow> Some v | _ \<Rightarrow> None)"

text \<open>
  The own enumerable properties of a source of \<open>Object.assign\<close>, as the pairs it copies:
  none for \<open>undefined\<close>, \<open>null\<close>, a boolean, a number or a function, the characters under
  their indices for a string.
\<close>

fun enumerable_entries :: "jsval \<Rightarrow> (key \<times> jsval) list" where
  "enumerable_entries (Obj b own anc) =
     List.map_filter (\<lambda>k. map_option (Pair k) (enumerable_value own k)) (own_keys own)"
| "enumerable_entries (Str s) = map (\<lambda>i. (index_key i, Str [s ! i])) [0 ..< length s]"
| "enumerable_entries v = []"

text \<open>
  \<open>Object.assign(target, ...sources)\<close>: each pair of each source is assigned, in order,
  and the first assignment that throws ends it.
\<close>

fun assign_entries :: "jsval \<Rightarrow> (key \<times> jsval) list \<Rightarrow> jsval + jsval" where
  "assign_entries target [] = Inr target"
| "assign_entries target ((k, v) # kvs) =
     (case set_prop target k v of Inl t \<Rightarrow> Inl t | Inr target' \<Rightarrow> assign_entries target' kvs)"

fun Object_assign :: "jsval \<Rightarrow> jsval list \<Rightarrow> jsval + jsval" where
  "Object_assign target [] = Inr target"
| "Object_assign target (s # sources) =
     (case assign_entries target (enumerable_entries s) of
        Inl t \<Rightarrow> Inl t
      | Inr target' \<Rightarrow> Object_assign target' sources)"

section \<open>The class \<open>Errod\<close>\<close>

text \<open>\<open>new Error(message)\<close> with a string.\<close>

definition Error_new :: "string \<Rightarrow> jsval" where
  "Error_new message = error_object ErrorBase ''Error'' message"

text \<open>
  \<open>super(message)\<close> in the constructor of \<open>Errod\<close>, the message a string: the new object has
  \<open>Errod.prototype\<close> as its prototype, and its stack is written while its name is still
  the inherited \<open>Error\<close>.
\<close>

definition Errod_super :: "string \<Rightarrow> jsval" where
  "Errod_super message = error_object ErrodBase ''Error'' message"

text \<open>
  \<open>new Errod(message, ...args)\<close>: \<open>super(message)\<close>, then \<open>this.name = 'Errod'\<close>, then
  \<open>Object.assign(this, ...args)\<close>. The result is the instance, or \<open>Inl\<close> the error that
  an assignment throws.
\<close>

definition Errod :: "string \<Rightarrow> jsval list \<Rightarrow> jsval + jsval" where
  "Errod message args =
     (let this = Errod_super message
      in case set_prop this ''name'' (Str ''Errod'') of
           Inl t \<Rightarrow> Inl t
         | Inr this \<Rightarrow> Object_assign this args)"

section \<open>Handlers, effects and completion\<close>

text \<open>
  What awaiting a call yields: the call returns or its promise is fulfilled (the value is
  not used), it throws or its promise is rejected with a value, or its promise never
  settles.
\<close>

datatype completion = Fulfilled | Rejected jsval | Pending

text \<open>
  What a run leaves behind: the calls of the three handlers (the property of the
  dispatcher that is called, the function value found there, and the arguments it gets),
  the lines written to the console by the library itself, with the arguments of
  \<open>console.error\<close> or \<open>console.log\<close>, and, as a ghost event, each evaluation of the
  guard \<open>if (isHandlingInternalError)\<close> with the value the flag has there.
\<close>

datatype role = Primary | Fallback | Internal

datatype event =
    Invoked role jsval jsval "jsval list"
  | ConsoleError "jsval list"
  | ConsoleLog "jsval list"
  | FlagTest bool

text \<open>
  A function of the user, awaited on an error and the context values, in a state \<open>'w\<close> of
  everything it can reach: it completes and leaves a new state.
\<close>

type_synonym 'w behaviour = "nat \<Rightarrow> jsval \<Rightarrow> jsval list \<Rightarrow> 'w \<Rightarrow> completion \<times> 'w"

definition red :: "string \<Rightarrow> string" where
  "red s = CHR 0x1B # ''[31m'' @ s"

definition reset :: string where
  "reset = CHR 0x1B # ''[0m''"

text \<open>
  \<open>basicInternalError(error)\<close>: the completion and the lines written. Each read of a
  field can throw, before the line it belongs to is written.
\<close>

definition basicInternalError :: "jsval \<Rightarrow> completion \<times> event list" where
  "basicInternalError error =
     (case get_field error ''message'' of
        Inl t \<Rightarrow> (Rejected t, [])
      | Inr message \<Rightarrow>
          (let line1 = ConsoleError [Str (red ''Errodator >> Internal error:''), message, Str reset]
           in case get_field error ''cause'' of
                Inl t \<Rightarrow> (Rejected t, [line1])
              | Inr cause \<Rightarrow>
                  if truthy cause
                  then (Fulfilled,
                        [line1, ConsoleError [Str (red ''Errodator >> Caused by:''), cause, Str reset]])
                  else (Fulfilled, [line1])))"

text \<open>
  The \<open>TypeError\<close> of calling a value that is not a function (wording of the engine).
\<close>

definition TypeError_call :: jsval where
  "TypeError_call = error_object TypeErrorBase ''TypeError'' ''handler is not a function''"

text \<open>
  \<open>await f(error, ...args)\<close> for the handler \<open>f\<close> held under a role: the call is recorded
  when \<open>f\<close> is a function; calling anything else throws.
\<close>

fun call_handler ::
  "'w behaviour \<Rightarrow> role \<Rightarrow> jsval \<Rightarrow> jsval \<Rightarrow> jsval list \<Rightarrow> 'w \<Rightarrow> completion \<times> event list \<times> 'w" where
  "call_handler user r (Fun BasicInternalError) error args w =
     (case basicInternalError error of
        (c, lines) \<Rightarrow> (c, Invoked r (Fun BasicInternalError) error args # lines, w))"
| "call_handler user r (Fun (UserFn n)) error args w =
     (case user n error args w of (c, w') \<Rightarrow> (c, [Invoked r (Fun (UserFn n)) error args], w'))"
| "call_handler user r f error args w = (Rejected TypeError_call, [], w)"

section \<open>The class \<open>Errodator\<close>\<close>

record errodator =
  func :: jsval
  logger :: jsval
  onInternalError :: jsval

text \<open>
  \<open>new Errodator(func, logger, onInternalError)\<close>: the third argument is \<open>Undefined\<close> when
  it is left out, and the default takes its place then. The result is the thrown error
  (\<open>Inl\<close>) or the instance, with what was written to the console.
\<close>

definition Errodator :: "jsval \<Rightarrow> jsval \<Rightarrow> jsval \<Rightarrow> (jsval + errodator) \<times> event list" where
  "Errodator func_arg logger_arg onInternalError_arg =
     (let this = \<lparr> func = func_arg, logger = logger_arg,
                   onInternalError = (if onInternalError_arg = Undefined then Fun BasicInternalError
                                      else onInternalError_arg) \<rparr>
      in if typeof (func this) \<noteq> ''function''
         then (Inl (Error_new ''Errodator: `func` argument must be a function''), [])
         else if typeof (logger this) \<noteq> ''function''
         then (Inl (Error_new ''Errodator: `logger` argument must be a function''), [])
         else if typeof (onInternalError this) \<noteq> ''function''
         then (Inl (Error_new ''Errodator: `onInternalError` argument must be a function''),
               [ConsoleLog [Str (typeof (onInternalError this))]])
         else (Inr this, []))"

text \<open>
  The handler of the inner \<open>catch (recursiveError)\<close>: one line with the message, a second
  one when there is a truthy cause.
\<close>

definition report_recursive :: "jsval \<Rightarrow> completion \<times> event list" where
  "report_recursive recursiveError =
     (case get_field recursiveError ''message'' of
        Inl t \<Rightarrow> (Rejected t, [])
      | Inr message \<Rightarrow>
          (let line1 = ConsoleError [Str (red ''Errodator >> Error in onInternalError:''), message, Str reset]
           in case get_field recursiveError ''cause'' of
                Inl t \<Rightarrow> (Rejected t, [line1])
              | Inr cause \<Rightarrow>
                  if truthy cause
                  then (Fulfilled,
                        [line1, ConsoleError [Str (red ''Errodator >> Caused by:''), cause, Str reset]])
                  else (Fulfilled, [line1])))"

text \<open>
  The handler of the outer \<open>catch (internalError)\<close>, from the value
  \<open>isHandlingInternalError\<close> has when it is entered. The guard is the first thing it
  evaluates; the assignment \<open>isHandlingInternalError = true\<close> that follows the guard is
  read by nothing after it.
\<close>

definition catch_internal ::
  "'w behaviour \<Rightarrow> errodator \<Rightarrow> bool \<Rightarrow> jsval \<Rightarrow> jsval list \<Rightarrow> 'w \<Rightarrow> completion \<times> event list \<times> 'w" where
  "catch_internal user this isHandlingInternalError internalError args w =
     (if isHandlingInternalError
      then (case get_field internalError ''message'' of
              Inl t \<Rightarrow> (Rejected t, [FlagTest isHandlingInternalError], w)
            | Inr message \<Rightarrow>
                (Fulfilled,
                 [FlagTest isHandlingInternalError,
                  ConsoleError [Str (red ''Errodator >> Recursive internal error detected:''), message, Str reset]],
                 w))
      else (case call_handler user Internal (onInternalError this) internalError args w of
              (Rejected recursiveError, evs, w') \<Rightarrow>
                (case report_recursive recursiveError of
                   (c, lines) \<Rightarrow> (c, FlagTest isHandlingInternalError # evs @ lines, w'))
            | (c, evs, w') \<Rightarrow> (c, FlagTest isHandlingInternalError # evs, w')))"

text \<open>
  \<open>await this.validate(error, ...args)\<close>: how the returned promise settles, the events of
  the call in order, and the state the handlers leave.
\<close>

definition validate ::
  "'w behaviour \<Rightarrow> errodator \<Rightarrow> jsval \<Rightarrow> jsval list \<Rightarrow> 'w \<Rightarrow> completion \<times> event list \<times> 'w" where
  "validate user this error args w =
     (let isHandlingInternalError = False
      in case (if instanceof_Errod error
               then call_handler user Primary (func this) error args w
               else call_handler user Fallback (logger this) error args w) of
           (Rejected internalError, evs, w') \<Rightarrow>
             (case catch_internal user this isHandlingInternalError internalError args w' of
                (c, evs', w'') \<Rightarrow> (c, evs @ evs', w''))
         | (c, evs, w') \<Rightarrow> (c, evs, w'))"

section \<open>Observations\<close>

text \<open>The events of a run, and the calls of handlers among them.\<close>

definition events :: "completion \<times> event list \<times> 'w \<Rightarrow> event list" where
  "events r = fst (snd r)"

fun is_call :: "event \<Rightarrow> bool" where
  "is_call (Invoked r f e args) = True"
| "is_call ev = False"

text \<open>The calls of \<open>func\<close> and \<open>logger\<close>, and those of \<open>onInternalError\<close>.\<close>

fun is_dispatch :: "event \<Rightarrow> bool" where
  "is_dispatch (Invoked Primary f e args) = True"
| "is_dispatch (Invoked Fallback f e args) = True"
| "is_dispatch ev = False"

fun is_internal :: "event \<Rightarrow> bool" where
  "is_internal (Invoked Internal f e args) = True"
| "is_internal ev = False"

text \<open>
  What a function does by itself when it is called on an error and context values in a
  state: a function of the user completes and leaves a state as its behaviour says and
  writes nothing through the library; the library's own handler runs its body.
\<close>

definition applied ::
  "'w behaviour \<Rightarrow> fn_ref \<Rightarrow> jsval \<Rightarrow> jsval list \<Rightarrow> 'w \<Rightarrow> completion \<times> event list \<times> 'w" where
  "applied user fr error args w =
     (case fr of
        UserFn n \<Rightarrow> (case user n error args w of (c, w') \<Rightarrow> (c, [], w'))
      | BasicInternalError \<Rightarrow> (case basicInternalError error of (c, lines) \<Rightarrow> (c, lines, w)))"

text \<open>
  A call of \<open>validate\<close> hands the error to the handler \<open>h\<close>, held under the role \<open>r\<close>: \<open>h\<close>
  is a function; the one call of \<open>func\<close> or \<open>logger\<close> in the run is the call of \<open>h\<close>
  under \<open>r\<close> on the error and the context values; and the run is that call, then what
  \<open>h\<close> does by itself on them in the state \<open>validate\<close> started in, then, only when \<open>h\<close>
  throws or rejects, the outer \<open>catch\<close> from the state \<open>h\<close> leaves.
\<close>

definition routes_to ::
  "'w behaviour \<Rightarrow> errodator \<Rightarrow> role \<Rightarrow> jsval \<Rightarrow> jsval \<Rightarrow> jsval list \<Rightarrow> 'w \<Rightarrow> bool" where
  "routes_to user this r h error args w =
     (case h of
        Fun fr \<Rightarrow>
          filter is_dispatch (events (validate user this error args w)) = [Invoked r h error args] \<and>
          (case applied user fr error args w of
             (Rejected v, lines, w1) \<Rightarrow>
               (case catch_internal user this False v args w1 of
                  (c', evs', w') \<Rightarrow>
                    validate user this error args w = (c', Invoked r h error args # lines @ evs', w'))
           | (c, lines, w1) \<Rightarrow>
               validate user this error args w = (c, Invoked r h error args # lines, w1))
      | _ \<Rightarrow> False)"

text \<open>
  What the inner \<open>try\<close> and \<open>catch\<close> of \<open>validate\<close> make of the completion of
  \<open>onInternalError\<close>: a rejection is reported, anything else is passed on.
\<close>

definition settled :: "completion \<Rightarrow> completion \<times> event list" where
  "settled c = (case c of Rejected r \<Rightarrow> report_recursive r | _ \<Rightarrow> (c, []))"

text \<open>The handler \<open>validate\<close> picks for an error, and the role it is held under.\<close>

definition chosen_role :: "jsval \<Rightarrow> role" where
  "chosen_role error = (if instanceof_Errod error then Primary else Fallback)"

definition chosen_handler :: "errodator \<Rightarrow> jsval \<Rightarrow> jsval" where
  "chosen_handler this error = (if instanceof_Errod error then func this else logger this)"

text \<open>Objects, and the value of an own property of an object.\<close>

fun is_object :: "jsval \<Rightarrow> bool" where
  "is_object (Obj b own anc) = True"
| "is_object v = False"

fun own_field :: "jsval \<Rightarrow> key \<Rightarrow> jsval option" where
  "own_field (Obj b own anc) k = own_value own k"
| "own_field v k = None"

text \<open>
  The value a metadata source supplies under a key, if it has an own enumerable property
  of that name, and the value of the last source of a list that supplies the key.
\<close>

definition supplied :: "jsval \<Rightarrow> key \<Rightarrow> jsval option" where
  "supplied s k = map_of (enumerable_entries s) k"

fun last_supplied :: "jsval list \<Rightarrow> key \<Rightarrow> jsval option" where
  "last_supplied [] k = None"
| "last_supplied (s # ss) k =
     (case last_supplied ss k of Some v \<Rightarrow> Some v | None \<Rightarrow> supplied s k)"

text \<open>The instance that \<open>new Errod(message)\<close> returns when it is given no metadata.\<close>

definition plain_Errod :: "string \<Rightarrow> jsval" where
  "plain_Errod message =
     Obj ErrodBase
       [(''stack'', Str (stack_header ''Error'' message), False), (''message'', Str message, False),
        (''name'', Str ''Errod'', True)] []"

text \<open>
  A line of the branch that \<open>validate\<close> takes when it finds \<open>isHandlingInternalError\<close>
  set.
\<close>

fun is_recursive_report :: "event \<Rightarrow> bool" where
  "is_recursive_report (ConsoleError args) =
     (length args = 3 \<and> hd args = Str (red ''Errodator >> Recursive internal error detected:''))"
| "is_recursive_report ev = False"

section \<open>Property assignment: what the constructor leaves\<close>

lemma own_value_put_own:
  "own_value (put_own k v ps) k' = (if k' = k then Some v else own_value ps k')"
  by (induction ps) (auto simp: own_value_def)

lemma own_field_set_prototype: "own_field (set_prototype own b anc v) k = own_value own k"
  by (cases v) auto

lemma is_object_set_prototype: "is_object (set_prototype own b anc v)"
  by (cases v) auto

lemma is_object_set_prop: "is_object t \<Longrightarrow> set_prop t k v = Inr t' \<Longrightarrow> is_object t'"
  by (cases t) (auto simp: is_object_set_prototype split: if_splits)

lemma own_field_set_prop:
  assumes "is_object t" and "k' \<noteq> ''__proto__''" and "set_prop t k v = Inr t'"
  shows "own_field t' k' = (if k' = k then Some v else own_field t k')"
  using assms
  by (cases t) (auto simp: own_field_set_prototype own_value_put_own split: if_splits)

lemma is_object_assign_entries:
  "is_object t \<Longrightarrow> assign_entries t kvs = Inr t' \<Longrightarrow> is_object t'"
proof (induction kvs arbitrary: t)
  case Nil
  then show ?case by simp
next
  case (Cons kv kvs)
  obtain k v where kv: "kv = (k, v)" by (cases kv)
  from Cons.prems(2) obtain t1 where s: "set_prop t k v = Inr t1" and r: "assign_entries t1 kvs = Inr t'"
    by (auto simp: kv split: sum.splits)
  from Cons.IH [OF is_object_set_prop [OF Cons.prems(1) s] r] show ?case .
qed

lemma own_field_assign_entries:
  assumes "k' \<noteq> ''__proto__''"
  shows "is_object t \<Longrightarrow> assign_entries t kvs = Inr t' \<Longrightarrow>
           own_field t' k' = (case map_of (rev kvs) k' of Some v \<Rightarrow> Some v | None \<Rightarrow> own_field t k')"
proof (induction kvs arbitrary: t)
  case Nil
  then show ?case by simp
next
  case (Cons kv kvs)
  obtain k v where kv: "kv = (k, v)" by (cases kv)
  from Cons.prems(2) obtain t1 where s: "set_prop t k v = Inr t1" and r: "assign_entries t1 kvs = Inr t'"
    by (auto simp: kv split: sum.splits)
  show ?case
    using Cons.IH [OF is_object_set_prop [OF Cons.prems(1) s] r]
      own_field_set_prop [OF Cons.prems(1) assms s]
    by (auto simp: kv map_add_def split: option.splits)
qed

lemma index_key_nonempty: "index_key n \<noteq> []"
  by (subst index_key.simps) simp

lemma digit_inj:
  "a < 10 \<Longrightarrow> b < 10 \<Longrightarrow> (char_of (48 + a) :: char) = char_of (48 + b) \<Longrightarrow> a = (b::nat)"
  by simp

lemma index_key_small: "n < 10 \<Longrightarrow> index_key n = [char_of (48 + n)]"
  by (subst index_key.simps) simp

lemma index_key_large:
  "\<not> n < 10 \<Longrightarrow> index_key n = index_key (n div 10) @ [char_of (48 + n mod 10)]"
  by (subst index_key.simps) simp

lemma index_key_inj: "index_key n = index_key m \<Longrightarrow> n = m"
proof (induction n arbitrary: m rule: index_key.induct)
  case (1 n)
  show ?case
  proof (cases "n < 10")
    case small: True
    show ?thesis
    proof (cases "m < 10")
      case True
      with small "1.prems" show ?thesis
        by (simp add: index_key_small)
    next
      case False
      with small "1.prems" index_key_nonempty [of "m div 10"] show ?thesis
        by (simp add: index_key_small index_key_large)
    qed
  next
    case large: False
    show ?thesis
    proof (cases "m < 10")
      case True
      with large "1.prems" index_key_nonempty [of "n div 10"] show ?thesis
        by (simp add: index_key_small index_key_large)
    next
      case False
      with large "1.prems"
      have eq: "index_key (n div 10) = index_key (m div 10)"
        and d: "(char_of (48 + n mod 10) :: char) = char_of (48 + m mod 10)"
        by (simp_all add: index_key_large)
      from "1.IH" [OF large eq] have q: "n div 10 = m div 10" .
      have "n mod 10 = m mod 10"
        by (rule digit_inj [OF _ _ d]) simp_all
      with q show ?thesis
        by (metis div_mult_mod_eq)
    qed
  qed
qed

lemma map_fst_map_filter_keys:
  "map fst (List.map_filter (\<lambda>k. map_option (Pair k) (f k)) ks) = filter (\<lambda>k. f k \<noteq> None) ks"
  by (induction ks) (auto simp: List.map_filter_simps split: option.splits)

lemma map_of_map_filter_keys:
  "map_of (List.map_filter (\<lambda>k. map_option (Pair k) (f k)) ks) k =
     (if k \<in> set ks then f k else None)"
  by (induction ks) (auto simp: List.map_filter_simps split: option.splits)

lemma distinct_enumerable_entries: "distinct (map fst (enumerable_entries s))"
proof (cases s)
  case (Str x)
  have "inj_on index_key (set [0 ..< length x])"
    by (rule inj_onI) (rule index_key_inj)
  then show ?thesis
    by (simp add: Str comp_def distinct_map)
next
  case (Obj b own anc)
  then show ?thesis
    by (simp add: map_fst_map_filter_keys own_keys_def)
qed simp_all

lemma map_of_rev_distinct: "distinct (map fst kvs) \<Longrightarrow> map_of (rev kvs) = map_of kvs"
  by (simp add: distinct_map map_of_inject_set)

lemma enumerable_value_None: "k \<notin> fst ` set ps \<Longrightarrow> enumerable_value ps k = None"
  by (simp add: enumerable_value_def map_of_eq_None_iff [symmetric] del: map_of_eq_None_iff)

lemma supplied_Obj: "supplied (Obj b own anc) k = enumerable_value own k"
  by (simp add: supplied_def map_of_map_filter_keys own_keys_def enumerable_value_None)

lemma own_field_assign_source:
  assumes "is_object t" and "k \<noteq> ''__proto__''" and "assign_entries t (enumerable_entries s) = Inr t'"
  shows "own_field t' k = (case supplied s k of Some v \<Rightarrow> Some v | None \<Rightarrow> own_field t k)"
  using own_field_assign_entries [OF assms(2,1,3)]
  by (simp add: supplied_def map_of_rev_distinct [OF distinct_enumerable_entries])

lemma own_field_Object_assign:
  assumes "k \<noteq> ''__proto__''"
  shows "is_object t \<Longrightarrow> Object_assign t args = Inr t' \<Longrightarrow>
           own_field t' k = (case last_supplied args k of Some v \<Rightarrow> Some v | None \<Rightarrow> own_field t k)"
proof (induction args arbitrary: t)
  case Nil
  then show ?case by simp
next
  case (Cons s ss)
  from Cons.prems(2) obtain t1 where
    a: "assign_entries t (enumerable_entries s) = Inr t1" and r: "Object_assign t1 ss = Inr t'"
    by (auto split: sum.splits)
  show ?case
    using Cons.IH [OF is_object_assign_entries [OF Cons.prems(1) a] r]
      own_field_assign_source [OF Cons.prems(1) assms a]
    by (simp split: option.splits)
qed

lemma set_prop_plain:
  assumes "k \<noteq> ''__proto__''" and "b \<noteq> FunctionBase"
  shows "set_prop (Obj b own anc) k v = Inr (Obj b (put_own k v own) anc)"
  using assms by simp

lemma assign_entries_no_proto:
  assumes "b \<noteq> FunctionBase"
  shows "''__proto__'' \<notin> fst ` set kvs \<Longrightarrow>
           \<exists>own'. assign_entries (Obj b own anc) kvs = Inr (Obj b own' anc)"
proof (induction kvs arbitrary: own)
  case Nil
  then show ?case by simp
next
  case (Cons kv kvs)
  obtain k v where kv: "kv = (k, v)" by (cases kv)
  with Cons.prems have k: "k \<noteq> ''__proto__''" and rest: "''__proto__'' \<notin> fst ` set kvs"
    by auto
  from Cons.IH [OF rest, of "put_own k v own"] show ?case
    by (simp add: kv set_prop_plain [OF k assms] del: set_prop.simps)
qed

lemma supplied_None_iff: "supplied s k = None \<longleftrightarrow> k \<notin> fst ` set (enumerable_entries s)"
  by (simp add: supplied_def map_of_eq_None_iff)

lemma Object_assign_no_proto:
  assumes "b \<noteq> FunctionBase"
  shows "\<forall>s \<in> set args. supplied s ''__proto__'' = None \<Longrightarrow>
           \<exists>own'. Object_assign (Obj b own anc) args = Inr (Obj b own' anc)"
proof (induction args arbitrary: own)
  case Nil
  then show ?case by simp
next
  case (Cons s ss)
  from Cons.prems have "''__proto__'' \<notin> fst ` set (enumerable_entries s)"
    by (simp add: supplied_None_iff)
  from assign_entries_no_proto [OF assms this] obtain own1 where
    a: "assign_entries (Obj b own anc) (enumerable_entries s) = Inr (Obj b own1 anc)"
    by blast
  from Cons.IH [of own1] Cons.prems show ?case
    by (simp add: a)
qed

lemma Errod_named:
  "set_prop (Errod_super message) ''name'' (Str ''Errod'') = Inr (plain_Errod message)"
  by (simp add: Errod_super_def error_object_def plain_Errod_def has_own_def own_value_def)

lemma Errod_unfold: "Errod message args = Object_assign (plain_Errod message) args"
  by (simp add: Errod_def Errod_named)

lemma Errod_no_metadata: "Errod message [] = Inr (plain_Errod message)"
  by (simp add: Errod_unfold)

lemma own_field_Errod:
  assumes "k \<noteq> ''__proto__''" and "Errod message args = Inr e"
  shows "own_field e k =
     (case last_supplied args k of Some v \<Rightarrow> Some v | None \<Rightarrow> own_field (plain_Errod message) k)"
proof -
  have "is_object (plain_Errod message)" by (simp add: plain_Errod_def)
  from own_field_Object_assign [OF assms(1) this] assms(2) show ?thesis
    by (simp add: Errod_unfold)
qed

lemma own_field_plain_Errod:
  "own_field (plain_Errod message) ''message'' = Some (Str message)"
  "own_field (plain_Errod message) ''name'' = Some (Str ''Errod'')"
  by (simp_all add: plain_Errod_def own_value_def)

lemma Errod_no_proto:
  assumes "\<forall>s \<in> set args. supplied s ''__proto__'' = None"
  shows "\<exists>own. Errod message args = Inr (Obj ErrodBase own [])"
  using Object_assign_no_proto [OF _ assms, of ErrodBase] 
  by (simp add: Errod_unfold plain_Errod_def)

lemma get_field_own: "own_field t k = Some v \<Longrightarrow> get_field t k = Inr v"
  by (cases t) auto

lemma Errod_throws_example:
  "Errod ''bad input''
     [Obj ObjectBase [(''__proto__'', Fun (UserFn 0), True), (''length'', Num 1, True)] []] =
   Inl (TypeError_assign ''length'')"
  by (simp add: Errod_unfold plain_Errod_def own_keys_def enumerable_value_def
      List.map_filter_simps has_own_def own_value_def function_read_only_def)

section \<open>The calls of a run of \<open>validate\<close>\<close>

lemma typeof_function: "typeof f = ''function'' \<longleftrightarrow> (\<exists>fr. f = Fun fr)"
  by (cases f) simp_all

lemma Errodator_Inr:
  assumes "Errodator f l i = (Inr this, log)"
  shows "func this = f" and "logger this = l"
    and "onInternalError this = (if i = Undefined then Fun BasicInternalError else i)"
    and "typeof f = ''function''" and "typeof l = ''function''"
    and "typeof (onInternalError this) = ''function''"
  using assms by (auto simp: Errodator_def Let_def split: if_splits)

lemma call_handler_applied:
  "call_handler user r (Fun fr) e args w =
     (case applied user fr e args w of (c, lines, w1) \<Rightarrow> (c, Invoked r (Fun fr) e args # lines, w1))"
  by (cases fr) (auto simp: applied_def split: prod.splits)

lemma basicInternalError_lines_only:
  "ev \<in> set (snd (basicInternalError v)) \<Longrightarrow>
     \<not> is_call ev \<and> (\<forall>b. ev \<noteq> FlagTest b) \<and> \<not> is_recursive_report ev"
  by (auto simp: basicInternalError_def red_def Let_def split: sum.splits if_splits)

lemma report_recursive_lines_only:
  "ev \<in> set (snd (report_recursive v)) \<Longrightarrow>
     \<not> is_call ev \<and> (\<forall>b. ev \<noteq> FlagTest b) \<and> \<not> is_recursive_report ev"
  by (auto simp: report_recursive_def red_def Let_def split: sum.splits if_splits)

lemma applied_lines_only:
  assumes "applied user fr e args w = (c, lines, w1)" and "ev \<in> set lines"
  shows "\<not> is_call ev \<and> (\<forall>b. ev \<noteq> FlagTest b) \<and> \<not> is_recursive_report ev"
proof (cases fr)
  case BasicInternalError
  with assms basicInternalError_lines_only [of ev e] show ?thesis
    by (auto simp: applied_def split: prod.splits)
next
  case (UserFn n)
  with assms show ?thesis
    by (auto simp: applied_def split: prod.splits)
qed

lemma settled_lines_only:
  "ev \<in> set (snd (settled c)) \<Longrightarrow>
     \<not> is_call ev \<and> (\<forall>b. ev \<noteq> FlagTest b) \<and> \<not> is_recursive_report ev"
  using report_recursive_lines_only [of ev]
  by (cases c) (auto simp: settled_def)

lemma no_calls_filter:
  assumes "\<And>ev. ev \<in> set evs \<Longrightarrow> \<not> is_call ev"
  shows "filter is_dispatch evs = []" and "filter is_internal evs = []"
proof -
  have "\<not> is_dispatch ev" "\<not> is_internal ev" if "ev \<in> set evs" for ev
    using assms [OF that] by (cases ev; auto elim: is_dispatch.elims is_internal.elims)+
  then show "filter is_dispatch evs = []" and "filter is_internal evs = []"
    by (auto simp: filter_empty_conv)
qed

lemma validate_unfold:
  "validate user this e ctx w =
     (case call_handler user (chosen_role e) (chosen_handler this e) e ctx w of
        (Rejected v, evs, w') \<Rightarrow>
          (case catch_internal user this False v ctx w' of (c, evs', w'') \<Rightarrow> (c, evs @ evs', w''))
      | (c, evs, w') \<Rightarrow> (c, evs, w'))"
  by (simp add: validate_def chosen_role_def chosen_handler_def)

lemma catch_internal_applied:
  assumes "onInternalError this = Fun ir" and "applied user ir v ctx w1 = (c2, lines2, w2)"
  shows "catch_internal user this False v ctx w1 =
           (fst (settled c2),
            FlagTest False # Invoked Internal (Fun ir) v ctx # lines2 @ snd (settled c2), w2)"
  using assms
  by (cases c2) (auto simp: catch_internal_def call_handler_applied settled_def split: prod.splits)

lemma validate_run:
  assumes "chosen_handler this e = Fun fr"
    and "applied user fr e ctx w = (c, lines, w1)"
  shows "validate user this e ctx w =
     (case c of
        Rejected v \<Rightarrow>
          (case catch_internal user this False v ctx w1 of
             (c', evs', w') \<Rightarrow> (c', Invoked (chosen_role e) (Fun fr) e ctx # lines @ evs', w'))
      | _ \<Rightarrow> (c, Invoked (chosen_role e) (Fun fr) e ctx # lines, w1))"
  using assms
  by (cases c) (auto simp: validate_unfold call_handler_applied split: prod.splits)

lemma validate_redirected:
  assumes "chosen_handler this e = Fun fr"
    and "applied user fr e ctx w = (Rejected v, lines, w1)"
    and "onInternalError this = Fun ir"
    and "applied user ir v ctx w1 = (c2, lines2, w2)"
  shows "validate user this e ctx w =
     (fst (settled c2),
      Invoked (chosen_role e) (Fun fr) e ctx # lines @
        FlagTest False # Invoked Internal (Fun ir) v ctx # lines2 @ snd (settled c2),
      w2)"
  using validate_run [OF assms(1,2)] catch_internal_applied [OF assms(3,4)]
  by simp

lemma is_dispatch_chosen: "is_dispatch (Invoked (chosen_role e) h e' ctx)"
  by (simp add: chosen_role_def)

lemma validate_dispatch_calls:
  assumes "chosen_handler this e = Fun fr" and "onInternalError this = Fun ir"
  shows "filter is_dispatch (events (validate user this e ctx w)) =
           [Invoked (chosen_role e) (Fun fr) e ctx]"
proof -
  obtain c lines w1 where a: "applied user fr e ctx w = (c, lines, w1)"
    by (cases "applied user fr e ctx w") auto
  have lines: "filter is_dispatch lines = []"
    using no_calls_filter(1) [of lines] applied_lines_only [OF a] by blast
  show ?thesis
  proof (cases c)
    case (Rejected v)
    obtain c2 lines2 w2 where b: "applied user ir v ctx w1 = (c2, lines2, w2)"
      by (cases "applied user ir v ctx w1") auto
    have lines2: "filter is_dispatch lines2 = []"
      using no_calls_filter(1) [of lines2] applied_lines_only [OF b] by blast
    have rep: "filter is_dispatch (snd (settled c2)) = []"
      using no_calls_filter(1) [of "snd (settled c2)"] settled_lines_only [of _ c2] by blast
    from validate_redirected [OF assms(1) a [unfolded Rejected] assms(2) b] lines lines2 rep
    show ?thesis
      by (simp add: events_def is_dispatch_chosen)
  qed (use validate_run [OF assms(1) a] lines in \<open>simp_all add: events_def is_dispatch_chosen\<close>)
qed

lemma chosen_handler_constructed:
  assumes "Errodator f l i = (Inr this, log)"
  shows "chosen_handler this e = (if instanceof_Errod e then f else l) \<and>
         (\<exists>fr. chosen_handler this e = Fun fr) \<and> (\<exists>ir. onInternalError this = Fun ir)"
  using Errodator_Inr [OF assms]
  by (auto simp: chosen_handler_def typeof_function)

lemma routes_to_chosen:
  assumes "Errodator f l i = (Inr this, log)"
  shows "routes_to user this (chosen_role e) (if instanceof_Errod e then f else l) e ctx w"
proof -
  from chosen_handler_constructed [OF assms, of e]
  have eq: "chosen_handler this e = (if instanceof_Errod e then f else l)"
    and "\<exists>fr. chosen_handler this e = Fun fr" and "\<exists>ir. onInternalError this = Fun ir"
    by blast+
  then obtain fr ir where h: "chosen_handler this e = Fun fr" and ir: "onInternalError this = Fun ir"
    by blast
  from eq h have hv: "(if instanceof_Errod e then f else l) = Fun fr" by simp
  obtain c lines w1 where a: "applied user fr e ctx w = (c, lines, w1)"
    by (cases "applied user fr e ctx w") auto
  show ?thesis
    unfolding routes_to_def hv
    using validate_dispatch_calls [OF h ir, of user ctx w] validate_run [OF h a] a
    by (cases c) (auto split: prod.splits)
qed

lemma validate_internal_calls:
  assumes "chosen_handler this e = Fun fr" and "onInternalError this = Fun ir"
    and "applied user fr e ctx w = (c, lines, w1)"
  shows "filter is_internal (events (validate user this e ctx w)) =
           (case c of Rejected v \<Rightarrow> [Invoked Internal (Fun ir) v ctx] | _ \<Rightarrow> [])"
proof -
  have first: "\<not> is_internal (Invoked (chosen_role e) (Fun fr) e ctx)"
    by (simp add: chosen_role_def)
  have lines: "filter is_internal lines = []"
    using no_calls_filter(2) [of lines] applied_lines_only [OF assms(3)] by blast
  show ?thesis
  proof (cases c)
    case (Rejected v)
    obtain c2 lines2 w2 where b: "applied user ir v ctx w1 = (c2, lines2, w2)"
      by (cases "applied user ir v ctx w1") auto
    have lines2: "filter is_internal lines2 = []"
      using no_calls_filter(2) [of lines2] applied_lines_only [OF b] by blast
    have rep: "filter is_internal (snd (settled c2)) = []"
      using no_calls_filter(2) [of "snd (settled c2)"] settled_lines_only [of _ c2] by blast
    from validate_redirected [OF assms(1) assms(3) [unfolded Rejected] assms(2) b] lines lines2 rep first
    show ?thesis
      by (simp add: events_def Rejected)
  qed (use validate_run [OF assms(1,3)] lines first in \<open>simp_all add: events_def\<close>)
qed

lemma onInternalError_at_most_once:
  assumes "Errodator f l i = (Inr this, log)"
  shows "length (filter is_internal (events (validate user this e ctx w))) \<le> 1"
proof -
  from chosen_handler_constructed [OF assms, of e] obtain fr ir where
    h: "chosen_handler this e = Fun fr" and ir: "onInternalError this = Fun ir"
    by blast
  obtain c lines w1 where a: "applied user fr e ctx w = (c, lines, w1)"
    by (cases "applied user fr e ctx w") auto
  from validate_internal_calls [OF h ir a] show ?thesis
    by (cases c) auto
qed

lemma report_recursive_Rejected:
  "fst (report_recursive r) = Rejected t \<Longrightarrow>
     (r = Null \<or> r = Undefined) \<and> t = TypeError_read (if r = Null then ''null'' else ''undefined'') ''message''"
  by (cases r) (auto simp: report_recursive_def Let_def split: if_splits)

lemma report_recursive_Fulfilled:
  "r \<noteq> Null \<Longrightarrow> r \<noteq> Undefined \<Longrightarrow> fst (report_recursive r) = Fulfilled"
  by (cases r) (auto simp: report_recursive_def Let_def)

lemma validate_Rejected:
  assumes "fst (validate user this e ctx w) = Rejected t"
  shows "\<exists>v evs w1 r evs2 w2.
           call_handler user (chosen_role e) (chosen_handler this e) e ctx w = (Rejected v, evs, w1) \<and>
           call_handler user Internal (onInternalError this) v ctx w1 = (Rejected r, evs2, w2) \<and>
           (r = Null \<or> r = Undefined) \<and>
           t = TypeError_read (if r = Null then ''null'' else ''undefined'') ''message''"
proof -
  obtain c evs w1 where
    r1: "call_handler user (chosen_role e) (chosen_handler this e) e ctx w = (c, evs, w1)"
    by (cases "call_handler user (chosen_role e) (chosen_handler this e) e ctx w") auto
  with assms obtain v where c: "c = Rejected v"
    by (cases c) (auto simp: validate_unfold)
  obtain c2 evs2 w2 where
    r2: "call_handler user Internal (onInternalError this) v ctx w1 = (c2, evs2, w2)"
    by (cases "call_handler user Internal (onInternalError this) v ctx w1") auto
  from assms r1 c r2 obtain r where c2: "c2 = Rejected r"
    by (cases c2) (auto simp: validate_unfold catch_internal_def split: prod.splits)
  from assms r1 c r2 c2 have "fst (report_recursive r) = Rejected t"
    by (auto simp: validate_unfold catch_internal_def split: prod.splits)
  from report_recursive_Rejected [OF this] r1 r2 c c2 show ?thesis
    by blast
qed

lemma validate_contained:
  assumes "call_handler user (chosen_role e) (chosen_handler this e) e ctx w = (Rejected v, evs, w1)"
    and "call_handler user Internal (onInternalError this) v ctx w1 = (Rejected r, evs2, w2)"
    and "r \<noteq> Null" and "r \<noteq> Undefined"
  shows "fst (validate user this e ctx w) = Fulfilled"
  using assms report_recursive_Fulfilled [OF assms(3,4)]
  by (auto simp: validate_unfold catch_internal_def split: prod.splits)

section \<open>The recursion guard\<close>

lemma basicInternalError_events:
  "ev \<in> set (snd (basicInternalError v)) \<Longrightarrow> (\<forall>b. ev \<noteq> FlagTest b) \<and> \<not> is_recursive_report ev"
  by (auto simp: basicInternalError_def red_def Let_def
      split: sum.splits if_splits)

lemma report_recursive_events:
  "ev \<in> set (snd (report_recursive v)) \<Longrightarrow> (\<forall>b. ev \<noteq> FlagTest b) \<and> \<not> is_recursive_report ev"
  by (auto simp: report_recursive_def red_def Let_def
      split: sum.splits if_splits)

lemma call_handler_events:
  assumes "ev \<in> set (fst (snd (call_handler user r f e args w)))"
  shows "(\<forall>b. ev \<noteq> FlagTest b) \<and> \<not> is_recursive_report ev"
proof (cases f)
  case (Fun fr)
  show ?thesis
  proof (cases fr)
    case BasicInternalError
    with Fun assms basicInternalError_events [of ev e] show ?thesis
      by (auto simp: split: prod.splits)
  next
    case (UserFn n)
    with Fun assms show ?thesis
      by (auto simp: split: prod.splits)
  qed
qed (use assms in auto)

lemma catch_internal_events:
  assumes "ev \<in> set (fst (snd (catch_internal user this False v ctx w)))"
  shows "(\<forall>b. ev = FlagTest b \<longrightarrow> \<not> b) \<and> \<not> is_recursive_report ev"
proof -
  obtain c evs w' where r: "call_handler user Internal (onInternalError this) v ctx w = (c, evs, w')"
    by (cases "call_handler user Internal (onInternalError this) v ctx w") auto
  have evs: "x \<in> set evs \<Longrightarrow> (\<forall>b. x \<noteq> FlagTest b) \<and> \<not> is_recursive_report x" for x
    using call_handler_events [of x user Internal "onInternalError this" v ctx w] r by simp
  have flag: "\<not> is_recursive_report (FlagTest False)"
    by simp
  show ?thesis
  proof (cases c)
    case (Rejected x)
    with assms r evs flag report_recursive_events [of ev x] show ?thesis
      by (auto simp: catch_internal_def split: prod.splits)
  qed (use assms r evs flag in \<open>auto simp: catch_internal_def\<close>)
qed

lemma validate_events:
  assumes "ev \<in> set (events (validate user this e ctx w))"
  shows "(\<forall>b. ev = FlagTest b \<longrightarrow> \<not> b) \<and> \<not> is_recursive_report ev"
proof -
  obtain c evs w' where
    r: "call_handler user (chosen_role e) (chosen_handler this e) e ctx w = (c, evs, w')"
    by (cases "call_handler user (chosen_role e) (chosen_handler this e) e ctx w") auto
  have evs: "x \<in> set evs \<Longrightarrow> (\<forall>b. x \<noteq> FlagTest b) \<and> \<not> is_recursive_report x" for x
    using call_handler_events [of x user "chosen_role e" "chosen_handler this e" e ctx w] r by simp
  show ?thesis
  proof (cases c)
    case (Rejected v)
    with assms r evs catch_internal_events [of ev user this v ctx w'] show ?thesis
      by (auto simp: validate_unfold events_def split: prod.splits)
  qed (use assms r evs in \<open>auto simp: validate_unfold events_def\<close>)
qed

lemma catch_internal_flag_set:
  "v \<noteq> Null \<Longrightarrow> v \<noteq> Undefined \<Longrightarrow>
     \<exists>message. catch_internal user this True v ctx w =
       (Fulfilled,
        [FlagTest True,
         ConsoleError [Str (red ''Errodator >> Recursive internal error detected:''), message, Str reset]],
        w)"
  by (cases v) (auto simp: catch_internal_def)

section \<open>Dispatch\<close>

text \<open>
  C1. On a dispatcher that the constructor returned, a call of \<open>validate\<close> with an error
  and context values hands the error to exactly one of the two handlers: to the
  function passed as \<open>func\<close> when the error is an instance of \<open>Errod\<close>, to the function
  passed as \<open>logger\<close> otherwise. That function is called once, on the error and the
  context values as they were passed, in the state the call started in, and no other
  call of \<open>func\<close> or \<open>logger\<close> takes place.
\<close>

theorem validate_invokes_exactly_one_handler:
  assumes "Errodator f l i = (Inr this, log)"
  shows "routes_to user this (if instanceof_Errod e then Primary else Fallback)
           (if instanceof_Errod e then f else l) e ctx w"
  using routes_to_chosen [OF assms, of user e ctx w] by (simp add: chosen_role_def)

theorem validate_invokes_exactly_one_handler_witness:
  "Errodator (Fun (UserFn 0)) (Fun (UserFn 1)) Undefined =
     (Inr \<lparr>func = Fun (UserFn 0), logger = Fun (UserFn 1), onInternalError = Fun BasicInternalError\<rparr>, []) \<and>
   Errod ''Test Errod'' [] = Inr (plain_Errod ''Test Errod'') \<and>
   instanceof_Errod (plain_Errod ''Test Errod'') \<and>
   validate (\<lambda>n e args w. (Fulfilled, w + (if n = 0 then 100 else 200)))
     \<lparr>func = Fun (UserFn 0), logger = Fun (UserFn 1), onInternalError = Fun BasicInternalError\<rparr>
     (plain_Errod ''Test Errod'') [Num 7] (0::nat) =
     (Fulfilled, [Invoked Primary (Fun (UserFn 0)) (plain_Errod ''Test Errod'') [Num 7]], 100) \<and>
   validate (\<lambda>n e args w. (Fulfilled, w + (if n = 0 then 100 else 200)))
     \<lparr>func = Fun (UserFn 0), logger = Fun (UserFn 1), onInternalError = Fun BasicInternalError\<rparr>
     (Error_new ''Test Error'') [Num 7] (0::nat) =
     (Fulfilled, [Invoked Fallback (Fun (UserFn 1)) (Error_new ''Test Error'') [Num 7]], 200)"
proof -
  have h: "Errodator (Fun (UserFn 0)) (Fun (UserFn 1)) Undefined =
     (Inr \<lparr>func = Fun (UserFn 0), logger = Fun (UserFn 1), onInternalError = Fun BasicInternalError\<rparr>, [])"
    by (simp add: Errodator_def)
  have e: "instanceof_Errod (plain_Errod ''Test Errod'')"
    by (simp add: plain_Errod_def)
  have n: "\<not> instanceof_Errod (Error_new ''Test Error'')"
    by (simp add: Error_new_def error_object_def)
  show ?thesis
    using h e n Errod_no_metadata [of "''Test Errod''"]
      validate_invokes_exactly_one_handler [OF h,
        of "\<lambda>n e args w. (Fulfilled, w + (if n = 0 then 100 else 200))"
           "plain_Errod ''Test Errod''" "[Num 7]" "0::nat"]
      validate_invokes_exactly_one_handler [OF h,
        of "\<lambda>n e args w. (Fulfilled, w + (if n = 0 then 100 else 200))"
           "Error_new ''Test Error''" "[Num 7]" "0::nat"]
    by (simp add: routes_to_def applied_def)
qed

section \<open>Redirection of a handler's failure\<close>

text \<open>
  C2. When the handler that \<open>validate\<close> calls (\<open>func\<close> or \<open>logger\<close>) throws or rejects with a
  value \<open>v\<close>, the function held as \<open>onInternalError\<close> (the one passed, or
  \<open>basicInternalError\<close> when none was) is called exactly once, on \<open>v\<close> and the context
  values that were passed to \<open>validate\<close>, in the state the failed handler left; the run
  is the two calls and what the inner \<open>catch\<close> makes of the second.
\<close>

theorem handler_failure_redirected_once:
  assumes "Errodator f l i = (Inr this, log)"
    and "(if instanceof_Errod e then f else l) = Fun fr"
    and "applied user fr e ctx w = (Rejected v, lines, w1)"
  shows "\<exists>ir c2 lines2 w2.
           (if i = Undefined then Fun BasicInternalError else i) = Fun ir \<and>
           applied user ir v ctx w1 = (c2, lines2, w2) \<and>
           filter is_internal (events (validate user this e ctx w)) = [Invoked Internal (Fun ir) v ctx] \<and>
           validate user this e ctx w =
             (fst (settled c2),
              Invoked (if instanceof_Errod e then Primary else Fallback) (Fun fr) e ctx # lines @
                FlagTest False # Invoked Internal (Fun ir) v ctx # lines2 @ snd (settled c2),
              w2)"
proof -
  from chosen_handler_constructed [OF assms(1), of e] assms(2) obtain ir where
    h: "chosen_handler this e = Fun fr" and ir: "onInternalError this = Fun ir"
    by metis
  from ir Errodator_Inr(3) [OF assms(1)]
  have iv: "(if i = Undefined then Fun BasicInternalError else i) = Fun ir" by simp
  obtain c2 lines2 w2 where b: "applied user ir v ctx w1 = (c2, lines2, w2)"
    by (cases "applied user ir v ctx w1") auto
  from validate_internal_calls [OF h ir assms(3)] validate_redirected [OF h assms(3) ir b] iv b
  show ?thesis
    by (auto simp: chosen_role_def)
qed

theorem handler_failure_redirected_once_witness:
  "Errodator (Fun (UserFn 0)) (Fun (UserFn 1)) (Fun (UserFn 2)) =
     (Inr \<lparr>func = Fun (UserFn 0), logger = Fun (UserFn 1), onInternalError = Fun (UserFn 2)\<rparr>, []) \<and>
   instanceof_Errod (plain_Errod ''Test Errod'') \<and>
   applied (\<lambda>n e args w. if n = 0 then (Rejected (Error_new ''Error in func''), w + 1)
                           else (Fulfilled, w + 10 * n))
     (UserFn 0) (plain_Errod ''Test Errod'') [Num 7] (0::nat) =
     (Rejected (Error_new ''Error in func''), [], 1) \<and>
   validate (\<lambda>n e args w. if n = 0 then (Rejected (Error_new ''Error in func''), w + 1)
                            else (Fulfilled, w + 10 * n))
     \<lparr>func = Fun (UserFn 0), logger = Fun (UserFn 1), onInternalError = Fun (UserFn 2)\<rparr>
     (plain_Errod ''Test Errod'') [Num 7] (0::nat) =
     (Fulfilled,
      [Invoked Primary (Fun (UserFn 0)) (plain_Errod ''Test Errod'') [Num 7], FlagTest False,
       Invoked Internal (Fun (UserFn 2)) (Error_new ''Error in func'') [Num 7]],
      21)"
proof -
  let ?user = "\<lambda>n e args w. if n = 0 then (Rejected (Error_new ''Error in func''), w + 1)
                              else (Fulfilled, w + 10 * n) :: completion \<times> nat"
  have h: "Errodator (Fun (UserFn 0)) (Fun (UserFn 1)) (Fun (UserFn 2)) =
     (Inr \<lparr>func = Fun (UserFn 0), logger = Fun (UserFn 1), onInternalError = Fun (UserFn 2)\<rparr>, [])"
    by (simp add: Errodator_def)
  have e: "instanceof_Errod (plain_Errod ''Test Errod'')"
    by (simp add: plain_Errod_def)
  then have c: "(if instanceof_Errod (plain_Errod ''Test Errod'') then Fun (UserFn 0) else Fun (UserFn 1)) =
                  Fun (UserFn 0)"
    by simp
  have a: "applied ?user (UserFn 0) (plain_Errod ''Test Errod'') [Num 7] 0 =
             (Rejected (Error_new ''Error in func''), [], 1)"
    by (simp add: applied_def)
  show ?thesis
    using h e a handler_failure_redirected_once [OF h c a]
    by (auto simp: applied_def settled_def)
qed

section \<open>Containment\<close>

text \<open>
  C3. The claim is that the promise of \<open>validate\<close> never rejects, whatever the handlers
  throw, \<open>null\<close> included. The run below is the one of
  \<^verbatim>\<open>new Errodator(() => { throw new Error('Error in func') }, () => {}, () => { throw null })\<close>
  on \<^verbatim>\<open>validate(new Errod('Test Errod'))\<close>: \<open>func\<close> throws, \<open>onInternalError\<close> is called
  and throws \<open>null\<close>, the inner \<open>catch\<close> reads \<open>recursiveError.message\<close> of \<open>null\<close>, and
  the \<open>TypeError\<close> of that read rejects the promise.
\<close>

theorem validate_rejects_when_onInternalError_throws_null:
  "Errodator (Fun (UserFn 0)) (Fun (UserFn 1)) (Fun (UserFn 2)) =
     (Inr \<lparr>func = Fun (UserFn 0), logger = Fun (UserFn 1), onInternalError = Fun (UserFn 2)\<rparr>, []) \<and>
   Errod ''Test Errod'' [] = Inr (plain_Errod ''Test Errod'') \<and>
   validate (\<lambda>n e args w. if n = 0 then (Rejected (Error_new ''Error in func''), w)
                           else if n = 2 then (Rejected Null, w) else (Fulfilled, w))
     \<lparr>func = Fun (UserFn 0), logger = Fun (UserFn 1), onInternalError = Fun (UserFn 2)\<rparr>
     (plain_Errod ''Test Errod'') [] () =
     (Rejected (TypeError_read ''null'' ''message''),
      [Invoked Primary (Fun (UserFn 0)) (plain_Errod ''Test Errod'') [], FlagTest False,
       Invoked Internal (Fun (UserFn 2)) (Error_new ''Error in func'') []], ())"
  by (simp add: Errodator_def validate_def catch_internal_def report_recursive_def Errod_no_metadata
      plain_Errod_def)

text \<open>
  C4. The claim is that, when \<open>onInternalError\<close> throws or rejects, it is not called again,
  the failure is reported on the console and \<open>validate\<close> returns normally. The run below
  is the one of
  \<^verbatim>\<open>new Errodator(() => {}, () => { throw 'logger failed' }, () => Promise.reject())\<close>
  on \<^verbatim>\<open>validate(new Error('boom'), 7)\<close>: \<open>onInternalError\<close> is called once and rejects
  with \<open>undefined\<close>; no line is written and the promise is rejected.
\<close>

theorem secondary_failure_unreported_when_undefined:
  "Errodator (Fun (UserFn 0)) (Fun (UserFn 1)) (Fun (UserFn 2)) =
     (Inr \<lparr>func = Fun (UserFn 0), logger = Fun (UserFn 1), onInternalError = Fun (UserFn 2)\<rparr>, []) \<and>
   validate (\<lambda>n e args w. if n = 1 then (Rejected (Str ''logger failed''), w)
                           else if n = 2 then (Rejected Undefined, w) else (Fulfilled, w))
     \<lparr>func = Fun (UserFn 0), logger = Fun (UserFn 1), onInternalError = Fun (UserFn 2)\<rparr>
     (Error_new ''boom'') [Num 7] () =
     (Rejected (TypeError_read ''undefined'' ''message''),
      [Invoked Fallback (Fun (UserFn 1)) (Error_new ''boom'') [Num 7], FlagTest False,
       Invoked Internal (Fun (UserFn 2)) (Str ''logger failed'') [Num 7]], ())"
  by (simp add: Errodator_def validate_def catch_internal_def report_recursive_def Error_new_def
      error_object_def)

section \<open>Construction of a dispatcher\<close>

text \<open>
  C5. \<open>new Errodator(func, logger, onInternalError)\<close> throws an \<open>Error\<close> when \<open>func\<close> is
  not a function, when \<open>logger\<close> is not a function, or when \<open>onInternalError\<close> is given
  (is not \<open>undefined\<close>) and is not a function. When \<open>onInternalError\<close> is left out and the
  two others are functions, the instance holds \<open>basicInternalError\<close> in its place; when
  all three are functions the instance holds them.
\<close>

theorem Errodator_construction:
  "((typeof f \<noteq> ''function'' \<or> typeof l \<noteq> ''function'' \<or> (i \<noteq> Undefined \<and> typeof i \<noteq> ''function''))
      \<longrightarrow> (\<exists>message. fst (Errodator f l i) = Inl (Error_new message))) \<and>
   (typeof f = ''function'' \<and> typeof l = ''function'' \<longrightarrow>
      Errodator f l Undefined =
        (Inr \<lparr>func = f, logger = l, onInternalError = Fun BasicInternalError\<rparr>, [])) \<and>
   (typeof f = ''function'' \<and> typeof l = ''function'' \<and> typeof i = ''function'' \<longrightarrow>
      Errodator f l i = (Inr \<lparr>func = f, logger = l, onInternalError = i\<rparr>, []))"
  by (auto simp: Errodator_def Let_def)

theorem Errodator_construction_witness:
  "typeof (Str ''handler'') \<noteq> ''function'' \<and>
   (\<exists>message. fst (Errodator (Str ''handler'') (Fun (UserFn 1)) Undefined) = Inl (Error_new message)) \<and>
   Null \<noteq> Undefined \<and> typeof Null \<noteq> ''function'' \<and>
   (\<exists>message. fst (Errodator (Fun (UserFn 0)) (Fun (UserFn 1)) Null) = Inl (Error_new message)) \<and>
   typeof (Fun (UserFn 0)) = ''function'' \<and> typeof (Fun (UserFn 1)) = ''function'' \<and>
   Errodator (Fun (UserFn 0)) (Fun (UserFn 1)) Undefined =
     (Inr \<lparr>func = Fun (UserFn 0), logger = Fun (UserFn 1), onInternalError = Fun BasicInternalError\<rparr>, []) \<and>
   typeof (Fun (UserFn 2)) = ''function'' \<and>
   Errodator (Fun (UserFn 0)) (Fun (UserFn 1)) (Fun (UserFn 2)) =
     (Inr \<lparr>func = Fun (UserFn 0), logger = Fun (UserFn 1), onInternalError = Fun (UserFn 2)\<rparr>, [])"
  using Errodator_construction [of "Str ''handler''" "Fun (UserFn 1)" Undefined]
        Errodator_construction [of "Fun (UserFn 0)" "Fun (UserFn 1)" Null]
        Errodator_construction [of "Fun (UserFn 0)" "Fun (UserFn 1)" "Fun (UserFn 2)"]
  by simp

section \<open>Construction of an \<open>Errod\<close>\<close>

text \<open>
  C6, as the claim states it, fails: a metadata source with the keys \<open>message\<close>, \<open>name\<close>
  and an own enumerable \<open>__proto__\<close> (as \<^verbatim>\<open>JSON.parse\<close> gives for
  \<^verbatim>\<open>{"message": "other", "name": "Other", "__proto__": null}\<close>) leaves an object that is
  not an instance of \<open>Errod\<close>, whose message is not the one passed and whose name is not
  \<open>Errod\<close>.
\<close>

theorem Errod_kind_and_message_counterexample:
  "Errod ''bad input''
     [Obj ObjectBase [(''message'', Str ''other'', True), (''name'', Str ''Other'', True),
                      (''__proto__'', Null, True)] []] =
     Inr (Obj NullBase [(''stack'', Str ''Error: bad input'', False), (''message'', Str ''other'', False),
                        (''name'', Str ''Other'', True)] []) \<and>
   \<not> instanceof_Errod
       (Obj NullBase [(''stack'', Str ''Error: bad input'', False), (''message'', Str ''other'', False),
                      (''name'', Str ''Other'', True)] []) \<and>
   get_field
       (Obj NullBase [(''stack'', Str ''Error: bad input'', False), (''message'', Str ''other'', False),
                      (''name'', Str ''Other'', True)] []) ''message'' = Inr (Str ''other'') \<and>
   get_field
       (Obj NullBase [(''stack'', Str ''Error: bad input'', False), (''message'', Str ''other'', False),
                      (''name'', Str ''Other'', True)] []) ''name'' = Inr (Str ''Other'')"
  by (simp add: Errod_unfold plain_Errod_def stack_header_def own_keys_def enumerable_value_def
      List.map_filter_simps has_own_def own_value_def function_read_only_def)

text \<open>
  C6, amended. For every message and every list of metadata sources for which the
  constructor returns an instance: under every key other than \<open>__proto__\<close> that some
  source supplies, the instance has an own field with the value of the last source that
  supplies the key; its \<open>message\<close> is the message passed and its \<open>name\<close> is \<open>Errod\<close>
  unless a source supplies that key. When no source has an own enumerable \<open>__proto__\<close>,
  the constructor returns an instance, and it is an instance of \<open>Errod\<close>.
\<close>

theorem Errod_fields:
  "(Errod message args = Inr e \<longrightarrow>
      (k \<noteq> ''__proto__'' \<and> last_supplied args k = Some v \<longrightarrow> own_field e k = Some v) \<and>
      (last_supplied args ''message'' = None \<longrightarrow> own_field e ''message'' = Some (Str message)) \<and>
      (last_supplied args ''name'' = None \<longrightarrow> own_field e ''name'' = Some (Str ''Errod''))) \<and>
   ((\<forall>s \<in> set args. supplied s ''__proto__'' = None) \<longrightarrow>
      (\<exists>e'. Errod message args = Inr e' \<and> instanceof_Errod e'))"
proof -
  have fields: "own_field e k = Some v"
    if "Errod message args = Inr e" and "k \<noteq> ''__proto__''" and "last_supplied args k = Some v"
    using own_field_Errod [OF that(2,1)] that(3) by simp
  have m: "own_field e ''message'' = Some (Str message)"
    if "Errod message args = Inr e" and "last_supplied args ''message'' = None"
    using own_field_Errod [OF _ that(1), of "''message''"] that(2)
    by (simp add: own_field_plain_Errod)
  have n: "own_field e ''name'' = Some (Str ''Errod'')"
    if "Errod message args = Inr e" and "last_supplied args ''name'' = None"
    using own_field_Errod [OF _ that(1), of "''name''"] that(2)
    by (simp add: own_field_plain_Errod)
  have inst: "\<exists>e'. Errod message args = Inr e' \<and> instanceof_Errod e'"
    if "\<forall>s \<in> set args. supplied s ''__proto__'' = None"
    using Errod_no_proto [OF that, of message] by auto
  from fields m n inst show ?thesis by blast
qed

theorem Errod_fields_witness:
  "Errod ''bad input'' [Obj ObjectBase [(''code'', Num 400, True)] [],
                        Obj ObjectBase [(''code'', Num 404, True)] []] =
     Inr (Obj ErrodBase [(''stack'', Str ''Error: bad input'', False),
                         (''message'', Str ''bad input'', False), (''name'', Str ''Errod'', True),
                         (''code'', Num 404, True)] []) \<and>
   last_supplied [Obj ObjectBase [(''code'', Num 400, True)] [],
                  Obj ObjectBase [(''code'', Num 404, True)] []] ''code'' = Some (Num 404) \<and>
   last_supplied [Obj ObjectBase [(''code'', Num 400, True)] [],
                  Obj ObjectBase [(''code'', Num 404, True)] []] ''message'' = None \<and>
   last_supplied [Obj ObjectBase [(''code'', Num 400, True)] [],
                  Obj ObjectBase [(''code'', Num 404, True)] []] ''name'' = None \<and>
   supplied (Obj ObjectBase [(''code'', Num 400, True)] []) ''__proto__'' = None \<and>
   supplied (Obj ObjectBase [(''code'', Num 404, True)] []) ''__proto__'' = None \<and>
   own_field (Obj ErrodBase [(''stack'', Str ''Error: bad input'', False),
                             (''message'', Str ''bad input'', False), (''name'', Str ''Errod'', True),
                             (''code'', Num 404, True)] []) ''code'' = Some (Num 404) \<and>
   own_field (Obj ErrodBase [(''stack'', Str ''Error: bad input'', False),
                             (''message'', Str ''bad input'', False), (''name'', Str ''Errod'', True),
                             (''code'', Num 404, True)] []) ''message'' = Some (Str ''bad input'') \<and>
   instanceof_Errod (Obj ErrodBase [(''stack'', Str ''Error: bad input'', False),
                             (''message'', Str ''bad input'', False), (''name'', Str ''Errod'', True),
                             (''code'', Num 404, True)] [])"
proof -
  let ?args = "[Obj ObjectBase [(''code'', Num 400, True)] [], Obj ObjectBase [(''code'', Num 404, True)] []]"
  let ?e = "Obj ErrodBase [(''stack'', Str ''Error: bad input'', False),
                           (''message'', Str ''bad input'', False), (''name'', Str ''Errod'', True),
                           (''code'', Num 404, True)] []"
  have r: "Errod ''bad input'' ?args = Inr ?e"
    by (simp add: Errod_unfold plain_Errod_def stack_header_def own_keys_def enumerable_value_def
        List.map_filter_simps has_own_def own_value_def)
  have s: "last_supplied ?args ''code'' = Some (Num 404)" "last_supplied ?args ''message'' = None"
    "last_supplied ?args ''name'' = None"
    "supplied (Obj ObjectBase [(''code'', Num 400, True)] []) ''__proto__'' = None"
    "supplied (Obj ObjectBase [(''code'', Num 404, True)] []) ''__proto__'' = None"
    by (simp_all add: supplied_Obj enumerable_value_def)
  show ?thesis
    using r s Errod_fields [of "''bad input''" ?args ?e "''code''" "Num 404"]
    by simp
qed

text \<open>
  C9. A metadata source with a key \<open>message\<close> or \<open>name\<close> overwrites the message passed
  to the constructor or the name \<open>Errod\<close>: in the instance the constructor returns, the
  field holds the value of the last source that supplies the key.
\<close>

theorem metadata_overwrites_builtin_fields:
  assumes "k = ''message'' \<or> k = ''name''"
    and "last_supplied args k = Some v"
    and "Errod message args = Inr e"
  shows "own_field e k = Some v \<and> get_field e k = Inr v"
proof -
  from assms(1) have "k \<noteq> ''__proto__''" by auto
  from own_field_Errod [OF this assms(3)] assms(2)
  have "own_field e k = Some v" by simp
  then show ?thesis by (simp add: get_field_own)
qed

theorem metadata_overwrites_builtin_fields_witness:
  "Errod ''bad input''
     [Obj ObjectBase [(''message'', Str ''first'', True)] [],
      Obj ObjectBase [(''message'', Str ''second'', True), (''name'', Str ''Other'', True)] []] =
     Inr (Obj ErrodBase [(''stack'', Str ''Error: bad input'', False),
                         (''message'', Str ''second'', False), (''name'', Str ''Other'', True)] []) \<and>
   last_supplied [Obj ObjectBase [(''message'', Str ''first'', True)] [],
                  Obj ObjectBase [(''message'', Str ''second'', True), (''name'', Str ''Other'', True)] []]
     ''message'' = Some (Str ''second'') \<and>
   get_field (Obj ErrodBase [(''stack'', Str ''Error: bad input'', False),
                             (''message'', Str ''second'', False), (''name'', Str ''Other'', True)] [])
     ''message'' = Inr (Str ''second'') \<and>
   last_supplied [Obj ObjectBase [(''message'', Str ''first'', True)] [],
                  Obj ObjectBase [(''message'', Str ''second'', True), (''name'', Str ''Other'', True)] []]
     ''name'' = Some (Str ''Other'') \<and>
   get_field (Obj ErrodBase [(''stack'', Str ''Error: bad input'', False),
                             (''message'', Str ''second'', False), (''name'', Str ''Other'', True)] [])
     ''name'' = Inr (Str ''Other'')"
proof -
  let ?args = "[Obj ObjectBase [(''message'', Str ''first'', True)] [],
                Obj ObjectBase [(''message'', Str ''second'', True), (''name'', Str ''Other'', True)] []]"
  let ?e = "Obj ErrodBase [(''stack'', Str ''Error: bad input'', False),
                           (''message'', Str ''second'', False), (''name'', Str ''Other'', True)] []"
  have r: "Errod ''bad input'' ?args = Inr ?e"
    by (simp add: Errod_unfold plain_Errod_def stack_header_def own_keys_def enumerable_value_def
        List.map_filter_simps has_own_def own_value_def)
  have m: "last_supplied ?args ''message'' = Some (Str ''second'')"
    by (simp add: supplied_Obj enumerable_value_def)
  have n: "last_supplied ?args ''name'' = Some (Str ''Other'')"
    by (simp add: supplied_Obj enumerable_value_def)
  show ?thesis
    using r m n
      metadata_overwrites_builtin_fields [OF _ m r]
      metadata_overwrites_builtin_fields [OF _ n r]
    by simp
qed

section \<open>The recursion flag\<close>

text \<open>
  C7. In a call of \<open>validate\<close>, whatever the error, the context and the handlers, the flag
  \<open>isHandlingInternalError\<close> is false each time the guard of the outer \<open>catch\<close> tests it,
  and the line \<open>Recursive internal error detected\<close> of its branch is never written.
\<close>

theorem recursion_guard_never_true:
  assumes "validate user this e ctx w = (c, evs, w')"
  shows "(\<forall>b. FlagTest b \<in> set evs \<longrightarrow> \<not> b) \<and>
         (\<forall>message. ConsoleError [Str (red ''Errodator >> Recursive internal error detected:''),
                                   message, Str reset] \<notin> set evs)"
proof -
  from assms have evs: "evs = events (validate user this e ctx w)"
    by (simp add: events_def)
  have flag: "\<not> b" if "FlagTest b \<in> set evs" for b
    using validate_events [of "FlagTest b" user this e ctx w] that evs by simp
  have line: "ConsoleError [Str (red ''Errodator >> Recursive internal error detected:''),
                            message, Str reset] \<notin> set evs" for message
    using validate_events [of "ConsoleError [Str (red ''Errodator >> Recursive internal error detected:''),
                                             message, Str reset]" user this e ctx w] evs
    by auto
  from flag line show ?thesis by blast
qed

theorem recursion_guard_never_true_witness:
  "validate (\<lambda>n e args w. if n = 0 then (Rejected (Error_new ''Error in func''), w) else (Fulfilled, w))
     \<lparr>func = Fun (UserFn 0), logger = Fun (UserFn 1), onInternalError = Fun (UserFn 2)\<rparr>
     (plain_Errod ''Test Errod'') [] () =
     (Fulfilled,
      [Invoked Primary (Fun (UserFn 0)) (plain_Errod ''Test Errod'') [], FlagTest False,
       Invoked Internal (Fun (UserFn 2)) (Error_new ''Error in func'') []], ()) \<and>
   FlagTest False \<in> set [Invoked Primary (Fun (UserFn 0)) (plain_Errod ''Test Errod'') [], FlagTest False,
       Invoked Internal (Fun (UserFn 2)) (Error_new ''Error in func'') []] \<and>
   FlagTest True \<notin> set [Invoked Primary (Fun (UserFn 0)) (plain_Errod ''Test Errod'') [], FlagTest False,
       Invoked Internal (Fun (UserFn 2)) (Error_new ''Error in func'') []]"
proof -
  have h: "validate (\<lambda>n e args w. if n = 0 then (Rejected (Error_new ''Error in func''), w) else (Fulfilled, w))
     \<lparr>func = Fun (UserFn 0), logger = Fun (UserFn 1), onInternalError = Fun (UserFn 2)\<rparr>
     (plain_Errod ''Test Errod'') [] () =
     (Fulfilled,
      [Invoked Primary (Fun (UserFn 0)) (plain_Errod ''Test Errod'') [], FlagTest False,
       Invoked Internal (Fun (UserFn 2)) (Error_new ''Error in func'') []], ())"
    by (simp add: validate_def catch_internal_def plain_Errod_def)
  show ?thesis
    using h recursion_guard_never_true [OF h] by simp
qed

section \<open>The default handler\<close>

text \<open>
  C8. On an error value other than \<open>null\<close> and \<open>undefined\<close>, \<open>basicInternalError\<close> writes
  one line with the message of the error, a second line with its cause exactly when the
  cause is truthy, completes normally, and leaves the state of the handlers as it was.
\<close>

theorem basicInternalError_lines:
  assumes "error \<noteq> Null" and "error \<noteq> Undefined"
  shows "\<exists>message cause.
           get_field error ''message'' = Inr message \<and> get_field error ''cause'' = Inr cause \<and>
           basicInternalError error =
             (Fulfilled,
              ConsoleError [Str (red ''Errodator >> Internal error:''), message, Str reset] #
              (if truthy cause
               then [ConsoleError [Str (red ''Errodator >> Caused by:''), cause, Str reset]]
               else [])) \<and>
           snd (snd (call_handler user r (Fun BasicInternalError) error args w)) = w"
  using assms by (cases error) (auto simp: basicInternalError_def Let_def split: prod.splits)

theorem basicInternalError_lines_witness:
  "Obj ErrorBase [(''message'', Str ''Func failure'', False), (''cause'', Str ''Some cause'', False)] [] \<noteq> Null \<and>
   Obj ErrorBase [(''message'', Str ''Func failure'', False), (''cause'', Str ''Some cause'', False)] []
     \<noteq> Undefined \<and>
   basicInternalError
     (Obj ErrorBase [(''message'', Str ''Func failure'', False), (''cause'', Str ''Some cause'', False)] []) =
     (Fulfilled,
      [ConsoleError [Str (red ''Errodator >> Internal error:''), Str ''Func failure'', Str reset],
       ConsoleError [Str (red ''Errodator >> Caused by:''), Str ''Some cause'', Str reset]]) \<and>
   basicInternalError (Str ''plain'') =
     (Fulfilled, [ConsoleError [Str (red ''Errodator >> Internal error:''), Undefined, Str reset]])"
  using basicInternalError_lines
          [of "Obj ErrorBase [(''message'', Str ''Func failure'', False),
                              (''cause'', Str ''Some cause'', False)] []"
              "\<lambda>n e args w. (Fulfilled, w)" Internal "[]" "()"]
        basicInternalError_lines [of "Str ''plain''" "\<lambda>n e args w. (Fulfilled, w)" Internal "[]" "()"]
  by (simp add: own_value_def)

section \<open>Classification by the runtime class\<close>

text \<open>
  C10. The handler to which \<open>validate\<close> hands an object depends on the end of its
  prototype chain only, not on its own fields: an object whose chain ends in
  \<open>Errod.prototype\<close> goes to the function passed as \<open>func\<close>, any other to the one passed
  as \<open>logger\<close>. So an \<open>Errod\<close> built with any metadata (a \<open>name\<close> included, an own
  enumerable \<open>__proto__\<close> excluded) goes to \<open>func\<close>, and an \<open>Error\<close> or a plain object
  whose \<open>name\<close> is \<open>Errod\<close> goes to \<open>logger\<close>.
\<close>

theorem classification_by_runtime_class_only:
  assumes "Errodator f l i = (Inr this, log)"
  shows "routes_to user this (if b = ErrodBase then Primary else Fallback)
           (if b = ErrodBase then f else l) (Obj b own anc) ctx w \<and>
         ((\<forall>s \<in> set args. supplied s ''__proto__'' = None) \<longrightarrow>
            (\<exists>e. Errod message args = Inr e \<and> routes_to user this Primary f e ctx w)) \<and>
         (\<exists>e. set_prop (Error_new message) ''name'' (Str ''Errod'') = Inr e \<and>
              get_field e ''name'' = Inr (Str ''Errod'') \<and> routes_to user this Fallback l e ctx w) \<and>
         routes_to user this Fallback l (Obj ObjectBase [(''name'', Str ''Errod'', True)] []) ctx w"
proof -
  have by_base: "routes_to user this (if b = ErrodBase then Primary else Fallback)
                   (if b = ErrodBase then f else l) (Obj b own anc) ctx w" for b own anc
    using routes_to_chosen [OF assms, of user "Obj b own anc" ctx w]
    by (simp add: chosen_role_def)
  have errod: "\<exists>e. Errod message args = Inr e \<and> routes_to user this Primary f e ctx w"
    if "\<forall>s \<in> set args. supplied s ''__proto__'' = None"
  proof -
    from Errod_no_proto [OF that, of message] obtain own' where
      "Errod message args = Inr (Obj ErrodBase own' [])" by blast
    with by_base [of ErrodBase own' "[]"] show ?thesis by simp
  qed
  have named: "set_prop (Error_new message) ''name'' (Str ''Errod'') =
                 Inr (Obj ErrorBase [(''stack'', Str (stack_header ''Error'' message), False),
                                     (''message'', Str message, False),
                                     (''name'', Str ''Errod'', True)] [])"
    by (simp add: Error_new_def error_object_def has_own_def own_value_def)
  have error: "\<exists>e. set_prop (Error_new message) ''name'' (Str ''Errod'') = Inr e \<and>
                  get_field e ''name'' = Inr (Str ''Errod'') \<and> routes_to user this Fallback l e ctx w"
    using by_base [of ErrorBase "[(''stack'', Str (stack_header ''Error'' message), False),
                                  (''message'', Str message, False),
                                  (''name'', Str ''Errod'', True)]" "[]"]
    by (simp add: named own_value_def)
  from by_base [of b own anc] errod error by_base [of ObjectBase "[(''name'', Str ''Errod'', True)]" "[]"]
  show ?thesis by simp
qed

theorem classification_by_runtime_class_only_witness:
  "Errodator (Fun (UserFn 0)) (Fun (UserFn 1)) Undefined =
     (Inr \<lparr>func = Fun (UserFn 0), logger = Fun (UserFn 1), onInternalError = Fun BasicInternalError\<rparr>, []) \<and>
   supplied (Obj ObjectBase [(''name'', Str ''Error'', True)] []) ''__proto__'' = None \<and>
   Errod ''bad input'' [Obj ObjectBase [(''name'', Str ''Error'', True)] []] =
     Inr (Obj ErrodBase [(''stack'', Str ''Error: bad input'', False),
                         (''message'', Str ''bad input'', False), (''name'', Str ''Error'', True)] []) \<and>
   validate (\<lambda>n e args w. (Fulfilled, w + (if n = 0 then 100 else 200)))
     \<lparr>func = Fun (UserFn 0), logger = Fun (UserFn 1), onInternalError = Fun BasicInternalError\<rparr>
     (Obj ErrodBase [(''stack'', Str ''Error: bad input'', False),
                     (''message'', Str ''bad input'', False), (''name'', Str ''Error'', True)] [])
     [Num 7] (0::nat) =
     (Fulfilled,
      [Invoked Primary (Fun (UserFn 0))
         (Obj ErrodBase [(''stack'', Str ''Error: bad input'', False),
                         (''message'', Str ''bad input'', False), (''name'', Str ''Error'', True)] [])
         [Num 7]],
      100) \<and>
   validate (\<lambda>n e args w. (Fulfilled, w + (if n = 0 then 100 else 200)))
     \<lparr>func = Fun (UserFn 0), logger = Fun (UserFn 1), onInternalError = Fun BasicInternalError\<rparr>
     (Obj ObjectBase [(''name'', Str ''Errod'', True)] []) [Num 7] (0::nat) =
     (Fulfilled,
      [Invoked Fallback (Fun (UserFn 1)) (Obj ObjectBase [(''name'', Str ''Errod'', True)] []) [Num 7]],
      200)"
proof -
  let ?user = "\<lambda>n e args w. (Fulfilled, w + (if n = 0 then 100 else 200)) :: completion \<times> nat"
  let ?args = "[Obj ObjectBase [(''name'', Str ''Error'', True)] []]"
  have h: "Errodator (Fun (UserFn 0)) (Fun (UserFn 1)) Undefined =
     (Inr \<lparr>func = Fun (UserFn 0), logger = Fun (UserFn 1), onInternalError = Fun BasicInternalError\<rparr>, [])"
    by (simp add: Errodator_def)
  have p: "supplied (Obj ObjectBase [(''name'', Str ''Error'', True)] []) ''__proto__'' = None"
    by (simp add: supplied_Obj enumerable_value_def)
  have r: "Errod ''bad input'' ?args =
     Inr (Obj ErrodBase [(''stack'', Str ''Error: bad input'', False),
                         (''message'', Str ''bad input'', False), (''name'', Str ''Error'', True)] [])"
    by (simp add: Errod_unfold plain_Errod_def stack_header_def own_keys_def enumerable_value_def
        List.map_filter_simps has_own_def own_value_def)
  show ?thesis
    using h p r
      classification_by_runtime_class_only [OF h, of ?user ObjectBase "[(''name'', Str ''Errod'', True)]"
        "[]" "[Num 7]" "0::nat" ?args "''bad input''"]
    by (simp add: routes_to_def applied_def)
qed

end
